theory Spec2Isabelle
  imports Main "HOL-Library.Extended_Nat" "HOL-Library.Code_Target_Nat"
begin

section \<open>Strings\<close>

text \<open>
  The program is \<^verbatim>\<open>src/app.js\<close>, a resolver of New Hampshire statute citations.
  A JavaScript string is a sequence of UTF-16 code units. The text of the input field,
  which \<open>normalize\<close> reads, is modelled as a list of code units: natural numbers (below
  65536), any of them. What the two patterns match and what the mapping payload holds is
  modelled as a \<^typ>\<open>string\<close>, a \<^typ>\<open>char\<close> being a code unit below 256; the classes of
  the patterns hold code units below 128 only.
\<close>

definition charCode :: "char \<Rightarrow> nat" where
  "charCode c = of_char c"

definition codeUnits :: "string \<Rightarrow> nat list" where
  "codeUnits s = map charCode s"

definition isDigit :: "char \<Rightarrow> bool" where
  \<comment> \<open>the class \<^verbatim>\<open>\d\<close>, that is \<^verbatim>\<open>[0-9]\<close>\<close>
  "isDigit c = (48 \<le> charCode c \<and> charCode c \<le> 57)"

definition isUpperLetter :: "char \<Rightarrow> bool" where
  \<comment> \<open>the class \<^verbatim>\<open>[A-Z]\<close>\<close>
  "isUpperLetter c = (65 \<le> charCode c \<and> charCode c \<le> 90)"

definition isLowerLetter :: "char \<Rightarrow> bool" where
  \<comment> \<open>the class \<^verbatim>\<open>[a-z]\<close>\<close>
  "isLowerLetter c = (97 \<le> charCode c \<and> charCode c \<le> 122)"

definition isLetter :: "char \<Rightarrow> bool" where
  \<comment> \<open>the class \<^verbatim>\<open>[a-z]\<close> under the flag \<^verbatim>\<open>i\<close> (without the flag \<^verbatim>\<open>u\<close> no code
     unit from 128 on is equal to a letter under \<^verbatim>\<open>i\<close>)\<close>
  "isLetter c = (isLowerLetter c \<or> isUpperLetter c)"

definition isSectionChar :: "char \<Rightarrow> bool" where
  \<comment> \<open>the class \<^verbatim>\<open>[0-9a-z-]\<close> under the flag \<^verbatim>\<open>i\<close>\<close>
  "isSectionChar c = (isDigit c \<or> isLetter c \<or> c = CHR ''-'')"

definition isWhiteSpace :: "nat \<Rightarrow> bool" where
  \<comment> \<open>the class \<^verbatim>\<open>\s\<close>, which is also what \<^verbatim>\<open>trim\<close> strips, the white space and the
     line terminators of ECMAScript: U+0009 to U+000D, U+0020, U+00A0, U+1680, U+2000 to
     U+200A, U+2028, U+2029, U+202F, U+205F, U+3000, U+FEFF\<close>
  "isWhiteSpace u =
     ((9 \<le> u \<and> u \<le> 13) \<or> u = 32 \<or> u = 160 \<or> u = 5760 \<or> (8192 \<le> u \<and> u \<le> 8202) \<or>
      u = 8232 \<or> u = 8233 \<or> u = 8239 \<or> u = 8287 \<or> u = 12288 \<or> u = 65279)"

definition lowerUnit :: "nat \<Rightarrow> nat" where
  \<comment> \<open>the small letter of a code unit below 256: of \<^verbatim>\<open>A\<close> to \<^verbatim>\<open>Z\<close> and of the capitals
     U+00C0 to U+00DE, the multiplication sign U+00D7 apart\<close>
  "lowerUnit u =
     (if (65 \<le> u \<and> u \<le> 90) \<or> (192 \<le> u \<and> u \<le> 222 \<and> u \<noteq> 215) then u + 32 else u)"

definition lowerChar :: "char \<Rightarrow> char" where
  "lowerChar c = char_of (lowerUnit (charCode c))"

definition toLowerCase :: "string \<Rightarrow> string" where
  "toLowerCase s = map lowerChar s"

text \<open>
  \<^verbatim>\<open>toLowerCase\<close> on the text of the input field. On a text of code units below 256 it
  maps each code unit by itself. On any other text it is what the Unicode tables of the
  runtime make it (one code unit may become several, and a capital sigma depends on its
  neighbours); these tables are no part of the repository, and the function
  \<open>unicodeLower\<close> stands for them.
\<close>

definition toLowerCaseInput :: "(nat list \<Rightarrow> nat list) \<Rightarrow> nat list \<Rightarrow> nat list" where
  "toLowerCaseInput unicodeLower s =
     (if list_all (\<lambda>u. u < 256) s then map lowerUnit s else unicodeLower s)"

definition upperChar :: "char \<Rightarrow> char" where
  \<comment> \<open>the capital of a code unit below 128\<close>
  "upperChar c = (if isLowerLetter c then char_of (charCode c - 32) else c)"

definition upperChars :: "char \<Rightarrow> string" where
  \<comment> \<open>\<^verbatim>\<open>toUpperCase\<close> on one code unit below 256: the sharp s U+00DF becomes \<^verbatim>\<open>SS\<close>,
     \<^verbatim>\<open>a\<close> to \<^verbatim>\<open>z\<close> and U+00E0 to U+00FE (the division sign U+00F7 apart) become their
     capitals. The capitals of the micro sign U+00B5 and of U+00FF lie beyond 255, in no
     class of a pattern: these two are left as they are, which no class holds either\<close>
  "upperChars c =
     (let u = charCode c in
      if u = 223 then ''SS''
      else if (97 \<le> u \<and> u \<le> 122) \<or> (224 \<le> u \<and> u \<le> 254 \<and> u \<noteq> 247)
        then [char_of (u - 32)]
      else [c])"

definition toUpperCase :: "string \<Rightarrow> string" where
  "toUpperCase s = concat (map upperChars s)"

definition trim :: "nat list \<Rightarrow> nat list" where
  "trim s = rev (dropWhile isWhiteSpace (rev (dropWhile isWhiteSpace s)))"

text \<open>
  \<^verbatim>\<open>s.replace(/\s+/g, "")\<close>: scanning from the left, every maximal run of whitespace
  is replaced by the empty string.
\<close>

function replaceWhitespaceRuns :: "nat list \<Rightarrow> nat list" where
  "replaceWhitespaceRuns [] = []"
| "replaceWhitespaceRuns (c # cs) =
     (if isWhiteSpace c then replaceWhitespaceRuns (dropWhile isWhiteSpace cs)
      else c # replaceWhitespaceRuns cs)"
  by pat_completeness auto
termination
  by (relation "measure length") (auto simp: length_dropWhile_le less_Suc_eq_le)

section \<open>Normalizer\<close>

text \<open>
  \<^verbatim>\<open>function normalize(s) { return (s || "").trim().toLowerCase().replace(/\s+/g, ""); }\<close>

  The argument is a string, or \<^verbatim>\<open>null\<close>/\<^verbatim>\<open>undefined\<close> (\<^term>\<open>None\<close>); \<^verbatim>\<open>s || ""\<close>
  takes the empty string for both of these and for the empty string itself.
\<close>

definition normalize_str :: "(nat list \<Rightarrow> nat list) \<Rightarrow> nat list option \<Rightarrow> nat list" where
  \<comment> \<open>the source's \<^verbatim>\<open>normalize\<close>\<close>
  "normalize_str unicodeLower s =
     replaceWhitespaceRuns
       (toLowerCaseInput unicodeLower (trim (case s of None \<Rightarrow> [] | Some t \<Rightarrow> t)))"

section \<open>Citation parser\<close>

datatype error =
    ParseError
  | BadChapterFormat string
  | MissingFolder string

fun message :: "error \<Rightarrow> string" where
  "message ParseError = ''Could not parse. Try '' @ [CHR 0x27] @ ''225-A:24'' @ [CHR 0x27] @
     '' or '' @ [CHR 0x27] @ ''RSA 225-A'' @ [CHR 0x27] @ ''.''"
| "message (BadChapterFormat ch) = ''Bad chapter format: '' @ ch"
| "message (MissingFolder ch) = ''Could not determine title folder for chapter '' @ ch"

record citation =
  cit_chapter :: string
  cit_section :: "string option"

definition startsWith :: "string \<Rightarrow> string \<Rightarrow> bool" where
  "startsWith s p = (take (length p) s = p)"

definition slice :: "string \<Rightarrow> nat \<Rightarrow> string" where
  "slice s n = drop n s"

text \<open>
  \<^verbatim>\<open>s.match(/^(\d+(?:-[a-z])?)(?::([0-9a-z-]+))?$/i)\<close>, giving the two groups of a match.
  The pattern is anchored at both ends and reads the string from the left: the digit run
  (all the digits, since what follows it is a hyphen, a colon or the end), then at most one
  hyphen with ONE letter, then at most one colon with a non-empty run of section
  characters, then the end. A group that took no part in the match is \<^verbatim>\<open>undefined\<close>
  (\<^term>\<open>None\<close>).
\<close>

definition matchAfterDigits :: "string \<Rightarrow> string \<Rightarrow> (string \<times> string option) option" where
  \<comment> \<open>\<^verbatim>\<open>(?:-[a-z])?)(?::([0-9a-z-]+))?$\<close> on what follows the digit run \<open>ds\<close>\<close>
  "matchAfterDigits ds r =
     (let (suf, r') =
            (case r of
               c # l # t \<Rightarrow> if c = CHR ''-'' \<and> isLetter l then ([c, l], t) else ([], r)
             | _ \<Rightarrow> ([], r))
      in case r' of
           [] \<Rightarrow> Some (ds @ suf, None)
         | c # sec \<Rightarrow>
             if c = CHR '':'' \<and> sec \<noteq> [] \<and> list_all isSectionChar sec
             then Some (ds @ suf, Some sec) else None)"

definition matchCitation :: "string \<Rightarrow> (string \<times> string option) option" where
  "matchCitation s =
     (let ds = takeWhile isDigit s; r = dropWhile isDigit s in
      if ds = [] then None else matchAfterDigits ds r)"

definition stripRsa :: "string \<Rightarrow> string" where
  \<comment> \<open>\<^verbatim>\<open>if (s.startsWith("rsa")) s = s.slice(3);\<close>\<close>
  "stripRsa s = (if startsWith s ''rsa'' then slice s 3 else s)"

text \<open>
  The pattern is anchored and each of its classes holds code units below 128 only, so a
  normalized text with a code unit from 256 on has no match, with or without the prefix:
  \<open>toChars\<close> gives the text as a string where the pattern can match at all.
\<close>

definition toChars :: "nat list \<Rightarrow> string option" where
  "toChars s = (if list_all (\<lambda>u. u < 256) s then Some (map char_of s) else None)"

definition parseRSA :: "(nat list \<Rightarrow> nat list) \<Rightarrow> nat list option \<Rightarrow> error + citation" where
  "parseRSA unicodeLower input =
     (case toChars (normalize_str unicodeLower input) of
        None \<Rightarrow> Inl ParseError
      | Some n \<Rightarrow>
          (let s = stripRsa n in
           case matchCitation s of
             None \<Rightarrow> Inl ParseError
           | Some (m1, m2) \<Rightarrow>
               Inr \<lparr>cit_chapter = toLowerCase m1,
                    cit_section = (case m2 of
                                     None \<Rightarrow> None
                                   | Some x \<Rightarrow> if x \<noteq> [] then Some (toLowerCase x) else None)\<rparr>))"

section \<open>Chapter token ordering\<close>

text \<open>
  A JavaScript number is a double. The numbers of this program are non-negative integers
  or \<^verbatim>\<open>Infinity\<close>, so a number is an \<^typ>\<open>enat\<close>, and the result of an arithmetic
  operation is the exact result rounded to the nearest double, ties to the even
  significand (53 bits), \<^verbatim>\<open>Infinity\<close> from \<open>2 ^ 1024\<close> on.
\<close>

fun bitLength :: "nat \<Rightarrow> nat" where
  "bitLength n = (if n = 0 then 0 else Suc (bitLength (n div 2)))"

declare bitLength.simps [simp del]

definition toNumber :: "nat \<Rightarrow> enat" where
  "toNumber n =
     (if n < 2 ^ 53 then enat n
      else
        let e = bitLength n - 53;
            q = n div 2 ^ e;
            r = n mod 2 ^ e;
            h = 2 ^ (e - 1);
            q' = (if r < h \<or> (r = h \<and> even q) then q else q + 1);
            v = q' * 2 ^ e
        in if v < 2 ^ 1024 then enat v else \<infinity>)"

definition numTimes :: "enat \<Rightarrow> nat \<Rightarrow> enat" where
  \<comment> \<open>\<^verbatim>\<open>a * k\<close> for a positive integer constant \<open>k\<close>\<close>
  "numTimes a k = (case a of enat x \<Rightarrow> toNumber (x * k) | \<infinity> \<Rightarrow> \<infinity>)"

definition numPlus :: "enat \<Rightarrow> nat \<Rightarrow> enat" where
  "numPlus a k = (case a of enat x \<Rightarrow> toNumber (x + k) | \<infinity> \<Rightarrow> \<infinity>)"

definition digitValue :: "char \<Rightarrow> nat" where
  "digitValue c = charCode c - 48"

definition decimalValue :: "string \<Rightarrow> nat" where
  \<comment> \<open>the integer a run of decimal digits denotes\<close>
  "decimalValue ds = foldl (\<lambda>a c. a * 10 + digitValue c) 0 ds"

definition parseInt10 :: "string \<Rightarrow> enat" where
  \<comment> \<open>\<^verbatim>\<open>parseInt(ds, 10)\<close> on a non-empty run of digits: the number nearest to the
     integer it denotes (past 20 significant digits ECMAScript lets an implementation read
     the later digits as zeros)\<close>
  "parseInt10 ds = toNumber (decimalValue ds)"

text \<open>
  \<^verbatim>\<open>s.match(/^(\d+)(?:-([A-Z]+))?$/)\<close>: the digit run, then at most one hyphen with a
  non-empty run of capital letters, then the end.
\<close>

definition matchChapter :: "string \<Rightarrow> (string \<times> string option) option" where
  "matchChapter s =
     (let ds = takeWhile isDigit s; r = dropWhile isDigit s in
      if ds = [] then None
      else case r of
             [] \<Rightarrow> Some (ds, None)
           | c # suf \<Rightarrow>
               if c = CHR ''-'' \<and> suf \<noteq> [] \<and> list_all isUpperLetter suf
               then Some (ds, Some suf) else None)"

definition suffixStep :: "enat \<Rightarrow> char \<Rightarrow> enat" where
  \<comment> \<open>\<^verbatim>\<open>n = n * 26 + (c.charCodeAt(0) - 64)\<close>; the pattern lets only \<^verbatim>\<open>A\<close> to
     \<^verbatim>\<open>Z\<close> come here, so the difference is 1 to 26\<close>
  "suffixStep n c = numPlus (numTimes n 26) (charCode c - 64)"

definition chapterToken :: "string \<Rightarrow> error + (enat \<times> enat)" where
  "chapterToken ch =
     (case matchChapter (toUpperCase ch) of
        None \<Rightarrow> Inl (BadChapterFormat ch)
      | Some (m1, m2) \<Rightarrow>
          let base = parseInt10 m1;
              suf = (case m2 of None \<Rightarrow> [] | Some x \<Rightarrow> x)
          in Inr (base, foldl suffixStep 0 suf))"

definition tokenLe :: "enat \<times> enat \<Rightarrow> enat \<times> enat \<Rightarrow> bool" where
  \<comment> \<open>\<^verbatim>\<open>a[0] < x[0] || (a[0] === x[0] && a[1] <= x[1])\<close>\<close>
  "tokenLe a x = (fst a < fst x \<or> (fst a = fst x \<and> snd a \<le> snd x))"

definition tokenLt :: "enat \<times> enat \<Rightarrow> enat \<times> enat \<Rightarrow> bool" where
  \<comment> \<open>the strict order of the specification: the base first, then the suffix ordinal\<close>
  "tokenLt a x = (fst a < fst x \<or> (fst a = fst x \<and> snd a < snd x))"

definition inRange :: "string \<Rightarrow> string \<Rightarrow> string \<Rightarrow> error + bool" where
  "inRange ch start end' =
     (case chapterToken ch of
        Inl e \<Rightarrow> Inl e
      | Inr x \<Rightarrow>
          (case chapterToken start of
             Inl e \<Rightarrow> Inl e
           | Inr a \<Rightarrow>
               (case chapterToken end' of
                  Inl e \<Rightarrow> Inl e
                | Inr b \<Rightarrow> Inr (tokenLe a x \<and> tokenLe x b))))"

section \<open>Folder resolver\<close>

text \<open>
  The mapping payload is the parsed JSON document of section 6 of the specification. Either
  member may be missing (\<^term>\<open>None\<close>); \<open>chapter_to_title\<close> is an object whose own keys
  map to strings, \<open>title_ranges\<close> an array of objects with three string members. The
  members that every object inherits (\<^verbatim>\<open>constructor\<close>, \<^verbatim>\<open>toString\<close> and the like)
  are not keys of the model: the lookup of the model is the lookup of the code for a
  chapter that is an own key and for a chapter string, an inherited member having no such
  name. What is proved of a chapter that is no key is proved of chapter strings.
\<close>

record title_range =
  tr_start :: string
  tr_end :: string
  tr_folder :: string

record payload =
  chapter_to_title :: "(string \<rightharpoonup> string) option"
  title_ranges :: "title_range list option"

fun scanRanges :: "string \<Rightarrow> title_range list \<Rightarrow> error + string option" where
  \<comment> \<open>the \<^verbatim>\<open>for (const tr of ...)\<close> loop and the \<^verbatim>\<open>return null\<close> after it\<close>
  "scanRanges chapter [] = Inr None"
| "scanRanges chapter (tr # trs) =
     (case inRange chapter (toLowerCase (tr_start tr)) (toLowerCase (tr_end tr)) of
        Inl e \<Rightarrow> Inl e
      | Inr True \<Rightarrow> Inr (Some (tr_folder tr))
      | Inr False \<Rightarrow> scanRanges chapter trs)"

definition truthy :: "string option \<Rightarrow> bool" where
  \<comment> \<open>a value that is a string, \<^verbatim>\<open>null\<close> or \<^verbatim>\<open>undefined\<close> is truthy when it is a
     non-empty string\<close>
  "truthy v = (case v of None \<Rightarrow> False | Some x \<Rightarrow> x \<noteq> [])"

definition directLookup :: "string \<Rightarrow> payload \<Rightarrow> string option" where
  \<comment> \<open>\<^verbatim>\<open>payload.chapter_to_title?.[chapter]\<close>, \<^verbatim>\<open>undefined\<close> being \<^term>\<open>None\<close>\<close>
  "directLookup chapter p = (case chapter_to_title p of None \<Rightarrow> None | Some m \<Rightarrow> m chapter)"

definition rangesOf :: "payload \<Rightarrow> title_range list" where
  \<comment> \<open>\<^verbatim>\<open>payload.title_ranges || []\<close>\<close>
  "rangesOf p = (case title_ranges p of None \<Rightarrow> [] | Some rs \<Rightarrow> rs)"

definition folderForChapter :: "string \<Rightarrow> payload \<Rightarrow> error + string option" where
  "folderForChapter chapter p =
     (let direct = directLookup chapter p in
      if truthy direct then Inr direct else scanRanges chapter (rangesOf p))"

definition BASE :: string where
  "BASE = ''https://gc.nh.gov/rsa/html''"

definition buildUrl :: "string \<Rightarrow> string option \<Rightarrow> string option \<Rightarrow> error + string" where
  "buildUrl chapter section folder =
     (case folder of
        None \<Rightarrow> Inl (MissingFolder chapter)
      | Some f \<Rightarrow>
          if \<not> truthy folder then Inl (MissingFolder chapter)
          else
            (case section of
               None \<Rightarrow> Inr (BASE @ ''/'' @ f @ ''/'' @ chapter @ ''/'' @ chapter @ ''-mrg.htm'')
             | Some s \<Rightarrow>
                 if truthy section
                 then Inr (BASE @ ''/'' @ f @ ''/'' @ chapter @ ''/'' @ chapter @ ''-'' @ s @ ''.htm'')
                 else Inr (BASE @ ''/'' @ f @ ''/'' @ chapter @ ''/'' @ chapter @ ''-mrg.htm'')))"

section \<open>The grammar and the token of the specification\<close>

text \<open>
  The specification's words, to compare the code with: a valid chapter is
  \<^verbatim>\<open>digits ("-" letters)?\<close>, a section is a non-empty run of letters, digits and hyphens,
  a citation is \<^verbatim>\<open>chapter (":" section)?\<close>.
\<close>

definition digitRun :: "string \<Rightarrow> string" where
  "digitRun s = takeWhile isDigit s"

definition suffixLetters :: "string \<Rightarrow> string" where
  \<comment> \<open>what follows the digit run and the hyphen\<close>
  "suffixLetters s = drop 1 (dropWhile isDigit s)"

definition validChapter :: "string \<Rightarrow> bool" where
  "validChapter s =
     (digitRun s \<noteq> [] \<and>
      (case dropWhile isDigit s of
         [] \<Rightarrow> True
       | c # ls \<Rightarrow> c = CHR ''-'' \<and> ls \<noteq> [] \<and> list_all isLetter ls))"

definition singleLetterChapter :: "string \<Rightarrow> bool" where
  \<comment> \<open>\<^verbatim>\<open>digits ("-" letter)?\<close>: the suffix is one letter\<close>
  "singleLetterChapter s =
     (digitRun s \<noteq> [] \<and>
      (case dropWhile isDigit s of
         [] \<Rightarrow> True
       | [c, l] \<Rightarrow> c = CHR ''-'' \<and> isLetter l
       | _ \<Rightarrow> False))"

definition validSection :: "string \<Rightarrow> bool" where
  "validSection s = (s \<noteq> [] \<and> list_all isSectionChar s)"

definition beforeColon :: "string \<Rightarrow> string" where
  "beforeColon s = takeWhile (\<lambda>c. c \<noteq> CHR '':'') s"

definition fromColon :: "string \<Rightarrow> string" where
  \<comment> \<open>empty, or the first colon and what follows it\<close>
  "fromColon s = dropWhile (\<lambda>c. c \<noteq> CHR '':'') s"

definition specCitation :: "string \<Rightarrow> bool" where
  \<comment> \<open>the specification's citation grammar, any number of suffix letters\<close>
  "specCitation s =
     (validChapter (beforeColon s) \<and> (fromColon s = [] \<or> validSection (tl (fromColon s))))"

definition codeCitation :: "string \<Rightarrow> bool" where
  \<comment> \<open>the same with a suffix of one letter\<close>
  "codeCitation s =
     (singleLetterChapter (beforeColon s) \<and>
      (fromColon s = [] \<or> validSection (tl (fromColon s))))"

definition letterPosition :: "char \<Rightarrow> nat" where
  \<comment> \<open>1 for \<^verbatim>\<open>a\<close> and \<^verbatim>\<open>A\<close>, up to 26 for \<^verbatim>\<open>z\<close> and \<^verbatim>\<open>Z\<close>\<close>
  "letterPosition c = (if isUpperLetter c then charCode c - 64 else charCode c - 96)"

definition suffixOrdinal :: "string \<Rightarrow> nat" where
  "suffixOrdinal ls = foldl (\<lambda>acc c. acc * 26 + letterPosition c) 0 ls"



section \<open>Facts about the string operations\<close>

lemma filter_dropWhile_neg: "filter (\<lambda>c. \<not> P c) (dropWhile P xs) = filter (\<lambda>c. \<not> P c) xs"
  by (induction xs) auto

lemma replaceWhitespaceRuns_filter:
  "replaceWhitespaceRuns s = filter (\<lambda>c. \<not> isWhiteSpace c) s"
  by (induction s rule: replaceWhitespaceRuns.induct) (auto simp: filter_dropWhile_neg)

lemma filter_trim: "filter (\<lambda>c. \<not> isWhiteSpace c) (trim s) = filter (\<lambda>c. \<not> isWhiteSpace c) s"
proof -
  have "filter (\<lambda>c. \<not> isWhiteSpace c) (trim s)
      = rev (filter (\<lambda>c. \<not> isWhiteSpace c) (dropWhile isWhiteSpace (rev (dropWhile isWhiteSpace s))))"
    by (simp add: trim_def rev_filter)
  also have "\<dots> = rev (filter (\<lambda>c. \<not> isWhiteSpace c) (rev (dropWhile isWhiteSpace s)))"
    by (simp only: filter_dropWhile_neg)
  also have "\<dots> = filter (\<lambda>c. \<not> isWhiteSpace c) (dropWhile isWhiteSpace s)"
    by (simp add: rev_filter)
  finally show ?thesis
    by (simp only: filter_dropWhile_neg)
qed

lemma set_trim: "set (trim s) \<subseteq> set s"
proof -
  have "set (trim s) \<subseteq> set (dropWhile isWhiteSpace s)"
    using set_dropWhileD [of _ isWhiteSpace "rev (dropWhile isWhiteSpace s)"]
    by (auto simp: trim_def)
  then show ?thesis
    using set_dropWhileD [of _ isWhiteSpace s] by blast
qed

lemma trim_inside:
  "\<exists>pre post. s = pre @ trim s @ post \<and> list_all isWhiteSpace pre \<and> list_all isWhiteSpace post"
proof -
  let ?d = "dropWhile isWhiteSpace s"
  let ?post = "rev (takeWhile isWhiteSpace (rev ?d))"
  have "trim s @ ?post
      = rev (takeWhile isWhiteSpace (rev ?d) @ dropWhile isWhiteSpace (rev ?d))"
    by (simp only: trim_def rev_append)
  also have "\<dots> = rev (rev ?d)"
    by (simp only: takeWhile_dropWhile_id)
  finally have d: "?d = trim s @ ?post"
    by simp
  have "s = takeWhile isWhiteSpace s @ ?d"
    by simp
  with d have "s = takeWhile isWhiteSpace s @ trim s @ ?post"
    by simp
  moreover have "list_all isWhiteSpace (takeWhile isWhiteSpace s)"
    by (auto simp: list_all_iff dest: set_takeWhileD)
  moreover have "list_all isWhiteSpace ?post"
    by (auto simp: list_all_iff dest: set_takeWhileD)
  ultimately show ?thesis
    by blast
qed

lemma trim_ends:
  "trim s = [] \<or> (\<not> isWhiteSpace (hd (trim s)) \<and> \<not> isWhiteSpace (last (trim s)))"
proof (cases "trim s = []")
  case True
  then show ?thesis ..
next
  case False
  let ?d = "dropWhile isWhiteSpace s"
  let ?e = "dropWhile isWhiteSpace (rev ?d)"
  from False have e: "?e \<noteq> []"
    by (simp add: trim_def)
  have d: "?d \<noteq> []"
  proof
    assume empty: "?d = []"
    have "?e = []"
      by (simp only: empty rev.simps dropWhile.simps)
    with e show False
      by contradiction
  qed
  have "last (trim s) = hd ?e"
    using e by (simp add: trim_def last_rev)
  moreover have "\<not> isWhiteSpace (hd ?e)"
    using e by (rule hd_dropWhile)
  moreover have "hd (trim s) = last ?e"
    using e by (simp add: trim_def hd_rev)
  moreover have "last ?e = last (rev ?d)"
    using e by (metis append_Nil2 last_appendR takeWhile_dropWhile_id)
  moreover have "last (rev ?d) = hd ?d"
    using d by (simp add: last_rev)
  moreover have "\<not> isWhiteSpace (hd ?d)"
    using d by (rule hd_dropWhile)
  ultimately show ?thesis
    by simp
qed

lemma isWhiteSpace_lowerUnit: "isWhiteSpace (lowerUnit u) = isWhiteSpace u"
  by (auto simp: lowerUnit_def isWhiteSpace_def)

lemma filter_lowerUnit:
  "filter (\<lambda>u. \<not> isWhiteSpace u) (map lowerUnit s)
     = map lowerUnit (filter (\<lambda>u. \<not> isWhiteSpace u) s)"
  by (induction s) (auto simp: isWhiteSpace_lowerUnit)

lemma normalize_Some:
  "normalize_str unicodeLower (Some s)
     = filter (\<lambda>u. \<not> isWhiteSpace u) (toLowerCaseInput unicodeLower (trim s))"
  by (simp add: normalize_str_def replaceWhitespaceRuns_filter)

lemma normalize_below_256:
  assumes "list_all (\<lambda>u. u < 256) s"
  shows "normalize_str unicodeLower (Some s)
     = filter (\<lambda>u. \<not> isWhiteSpace u) (map lowerUnit s)"
proof -
  from assms have "list_all (\<lambda>u. u < 256) (trim s)"
    using set_trim [of s] by (auto simp: list_all_iff)
  then have "normalize_str unicodeLower (Some s)
      = filter (\<lambda>u. \<not> isWhiteSpace u) (map lowerUnit (trim s))"
    by (simp add: normalize_Some toLowerCaseInput_def)
  also have "\<dots> = map lowerUnit (filter (\<lambda>u. \<not> isWhiteSpace u) (trim s))"
    by (rule filter_lowerUnit)
  also have "\<dots> = map lowerUnit (filter (\<lambda>u. \<not> isWhiteSpace u) s)"
    by (simp only: filter_trim)
  finally show ?thesis
    by (simp only: filter_lowerUnit)
qed

subsection \<open>Characters under the case mappings\<close>

lemma charCode_char_of: "n < 256 \<Longrightarrow> charCode (char_of n) = n"
  by (simp add: charCode_def)

lemma charCode_below_256: "charCode c < 256"
  by (simp add: charCode_def)

lemma char_eq_charCode: "c = d \<longleftrightarrow> charCode c = charCode d"
  by (simp add: charCode_def)

lemma charCode_lowerChar: "charCode (lowerChar c) = lowerUnit (charCode c)"
  using charCode_below_256 [of c]
  by (auto simp: lowerChar_def lowerUnit_def charCode_char_of)

lemma isUpperLetter_lowerChar: "\<not> isUpperLetter (lowerChar c)"
  by (auto simp: isUpperLetter_def charCode_lowerChar lowerUnit_def)

lemma isDigit_upperChar [simp]: "isDigit (upperChar c) = isDigit c"
  by (auto simp: upperChar_def isDigit_def isLowerLetter_def charCode_char_of)

lemma isDigit_lowerChar [simp]: "isDigit (lowerChar c) = isDigit c"
  by (auto simp: isDigit_def charCode_lowerChar lowerUnit_def)

lemma upperChar_digit: "isDigit c \<Longrightarrow> upperChar c = c"
  by (auto simp: upperChar_def isDigit_def isLowerLetter_def)

lemma isUpperLetter_upperChar [simp]: "isUpperLetter (upperChar c) = isLetter c"
  by (auto simp: upperChar_def isLetter_def isUpperLetter_def isLowerLetter_def charCode_char_of)

lemma isLetter_lowerChar [simp]: "isLetter (lowerChar c) = isLetter c"
  by (auto simp: isLetter_def isUpperLetter_def isLowerLetter_def charCode_lowerChar
      lowerUnit_def)

lemma hyphen_upperChar [simp]: "upperChar c = CHR ''-'' \<longleftrightarrow> c = CHR ''-''"
  by (auto simp: upperChar_def isLowerLetter_def char_eq_charCode [of _ "CHR ''-''"]
      charCode_char_of) (simp_all add: charCode_def)

lemma hyphen_lowerChar [simp]: "lowerChar c = CHR ''-'' \<longleftrightarrow> c = CHR ''-''"
proof -
  have "charCode CHR ''-'' = 45"
    by (simp add: charCode_def)
  then show ?thesis
    by (auto simp: char_eq_charCode [of _ "CHR ''-''"] charCode_lowerChar lowerUnit_def)
qed

lemma charCode_upperChar_letter:
  "isLetter c \<Longrightarrow> charCode (upperChar c) - 64 = letterPosition c"
  by (auto simp: upperChar_def letterPosition_def isLetter_def isUpperLetter_def
      isLowerLetter_def charCode_char_of)

lemma upperChars_below_128: "charCode c < 128 \<Longrightarrow> upperChars c = [upperChar c]"
  by (auto simp: upperChars_def upperChar_def isLowerLetter_def Let_def)

lemma toUpperCase_below_128:
  "list_all (\<lambda>c. charCode c < 128) s \<Longrightarrow> toUpperCase s = map upperChar s"
  by (induction s) (simp_all add: toUpperCase_def upperChars_below_128)

subsection \<open>Numbers\<close>

lemma bitLength_pos: "0 < n \<Longrightarrow> bitLength n = Suc (bitLength (n div 2))"
  by (subst bitLength.simps) simp

lemma bitLength_zero: "bitLength 0 = 0"
  by (subst bitLength.simps) simp

lemma toNumber_small: "n < 2 ^ 53 \<Longrightarrow> toNumber n = enat n"
  by (simp add: toNumber_def)

lemma toNumber_two_53: "toNumber (2 ^ 53) = enat (2 ^ 53)"
  by (simp add: toNumber_def bitLength_pos bitLength_zero Let_def)

lemma toNumber_exact: "n \<le> 2 ^ 53 \<Longrightarrow> toNumber n = enat n"
  using toNumber_small [of n] toNumber_two_53 by (cases "n = 2 ^ 53") auto

subsection \<open>The chapter pattern\<close>

lemma map_upperChar_digits: "list_all isDigit ds \<Longrightarrow> map upperChar ds = ds"
  by (induction ds) (auto simp: upperChar_digit)

lemma takeWhile_isDigit_upper:
  "takeWhile isDigit (map upperChar s) = takeWhile isDigit s"
proof -
  have "takeWhile isDigit (map upperChar s) = map upperChar (takeWhile isDigit s)"
    by (simp add: takeWhile_map comp_def)
  moreover have "list_all isDigit (takeWhile isDigit s)"
    by (auto simp: list_all_iff dest: set_takeWhileD)
  ultimately show ?thesis
    by (simp add: map_upperChar_digits)
qed

lemma dropWhile_isDigit_upper:
  "dropWhile isDigit (map upperChar s) = map upperChar (dropWhile isDigit s)"
  by (simp add: dropWhile_map comp_def)

lemma list_all_upper [simp]: "list_all isUpperLetter (map upperChar ls) = list_all isLetter ls"
  by (induction ls) auto

lemma matchChapter_upper:
  "matchChapter (map upperChar s) =
     (if validChapter s
      then Some (digitRun s,
             if dropWhile isDigit s = [] then None else Some (map upperChar (suffixLetters s)))
      else None)"
proof (cases "dropWhile isDigit s")
  case Nil
  then show ?thesis
    by (simp add: matchChapter_def validChapter_def digitRun_def
        takeWhile_isDigit_upper dropWhile_isDigit_upper del: dropWhile_eq_Nil_conv)
next
  case (Cons c ls)
  then show ?thesis
    by (auto simp add: matchChapter_def validChapter_def digitRun_def suffixLetters_def
        takeWhile_isDigit_upper dropWhile_isDigit_upper Let_def
        simp del: dropWhile_eq_Nil_conv)
qed

lemma suffixLetters_no_suffix: "dropWhile isDigit s = [] \<Longrightarrow> suffixLetters s = []"
  by (simp add: suffixLetters_def del: dropWhile_eq_Nil_conv)

lemma isDigit_below_128: "isDigit c \<Longrightarrow> charCode c < 128"
  by (simp add: isDigit_def)

lemma isLetter_below_128: "isLetter c \<Longrightarrow> charCode c < 128"
  by (auto simp: isLetter_def isLowerLetter_def isUpperLetter_def)

lemma validChapter_below_128:
  assumes "validChapter s"
  shows "list_all (\<lambda>c. charCode c < 128) s"
proof -
  have digits: "list_all (\<lambda>c. charCode c < 128) (takeWhile isDigit s)"
    by (auto simp: list_all_iff dest: set_takeWhileD isDigit_below_128)
  have hyphen: "charCode CHR ''-'' < 128"
    by (simp add: charCode_def)
  from assms hyphen have "list_all (\<lambda>c. charCode c < 128) (dropWhile isDigit s)"
    by (cases "dropWhile isDigit s")
      (auto simp add: validChapter_def list_all_iff simp del: dropWhile_eq_Nil_conv
        dest: isLetter_below_128)
  with digits have "list_all (\<lambda>c. charCode c < 128) (takeWhile isDigit s @ dropWhile isDigit s)"
    by (simp only: list_all_append simp_thms)
  then show ?thesis
    by simp
qed

lemma chapterToken_valid:
  assumes "validChapter s"
  shows "chapterToken s =
     Inr (parseInt10 (digitRun s), foldl suffixStep 0 (map upperChar (suffixLetters s)))"
proof -
  from assms have upper: "toUpperCase s = map upperChar s"
    by (simp add: validChapter_below_128 toUpperCase_below_128)
  show ?thesis
  proof (cases "dropWhile isDigit s = []")
    case True
    with assms show ?thesis
      by (simp add: chapterToken_def upper matchChapter_upper suffixLetters_no_suffix
          del: dropWhile_eq_Nil_conv)
  next
    case False
    with assms show ?thesis
      by (simp add: chapterToken_def upper matchChapter_upper del: dropWhile_eq_Nil_conv)
  qed
qed

lemma validChapter_letters: "validChapter s \<Longrightarrow> list_all isLetter (suffixLetters s)"
  by (cases "dropWhile isDigit s")
    (auto simp add: validChapter_def suffixLetters_def simp del: dropWhile_eq_Nil_conv)

subsection \<open>The suffix fold\<close>

lemma suffixOrdinal_snoc:
  "suffixOrdinal (ls @ [c]) = suffixOrdinal ls * 26 + letterPosition c"
  by (simp add: suffixOrdinal_def)

lemma suffix_fold_exact:
  "list_all isLetter ls \<Longrightarrow> suffixOrdinal ls \<le> 2 ^ 53 \<Longrightarrow>
   foldl suffixStep 0 (map upperChar ls) = enat (suffixOrdinal ls)"
proof (induction ls rule: rev_induct)
  case Nil
  then show ?case
    by (simp add: suffixOrdinal_def zero_enat_def)
next
  case (snoc c ls)
  let ?n = "suffixOrdinal ls"
  from snoc.prems have letters: "list_all isLetter ls" and c: "isLetter c"
    by simp_all
  from snoc.prems have bound: "?n * 26 + letterPosition c \<le> 2 ^ 53"
    by (simp add: suffixOrdinal_snoc)
  then have "?n * 26 \<le> 2 ^ 53" and "?n \<le> 2 ^ 53"
    by simp_all
  with snoc.IH letters have ih: "foldl suffixStep 0 (map upperChar ls) = enat ?n"
    by simp
  have "foldl suffixStep 0 (map upperChar (ls @ [c])) = suffixStep (enat ?n) (upperChar c)"
    using ih by simp
  also have "\<dots> = numPlus (toNumber (?n * 26)) (letterPosition c)"
    using c by (simp add: suffixStep_def numTimes_def charCode_upperChar_letter)
  also have "\<dots> = numPlus (enat (?n * 26)) (letterPosition c)"
    using \<open>?n * 26 \<le> 2 ^ 53\<close> by (simp add: toNumber_exact)
  also have "\<dots> = enat (?n * 26 + letterPosition c)"
    using bound by (simp add: numPlus_def toNumber_exact)
  finally show ?case
    by (simp add: suffixOrdinal_snoc)
qed

subsection \<open>Rounding\<close>

lemma base_rounding_example:
  "validChapter ''9007199254740993'' \<and>
   decimalValue (digitRun ''9007199254740993'') = 9007199254740993 \<and>
   chapterToken ''9007199254740993'' = Inr (enat 9007199254740992, enat 0)"
proof -
  have v: "validChapter ''9007199254740993''"
    by code_simp
  have run: "digitRun ''9007199254740993'' = ''9007199254740993''"
    and suf: "suffixLetters ''9007199254740993'' = []"
    by code_simp+
  have dv: "decimalValue ''9007199254740993'' = 9007199254740993"
    by code_simp
  have "toNumber 9007199254740993 = enat 9007199254740992"
    by (simp add: toNumber_def bitLength_pos bitLength_zero Let_def)
  with v run suf dv show ?thesis
    by (simp add: chapterToken_valid parseInt10_def zero_enat_def)
qed

lemma suffix_rounding_example:
  "validChapter ''1-zzzzzzzzzzzz'' \<and>
   suffixOrdinal (suffixLetters ''1-zzzzzzzzzzzz'') = 99246114928149462 \<and>
   chapterToken ''1-zzzzzzzzzzzz'' = Inr (enat 1, enat 99246114928149472)"
proof -
  have v: "validChapter ''1-zzzzzzzzzzzz''"
    by code_simp
  have run: "digitRun ''1-zzzzzzzzzzzz'' = ''1''"
    and suf: "map upperChar (suffixLetters ''1-zzzzzzzzzzzz'') = ''ZZZZZZZZZZZ'' @ ''Z''"
    and letters: "list_all isLetter ''zzzzzzzzzzz''"
    and upper: "map upperChar ''zzzzzzzzzzz'' = ''ZZZZZZZZZZZ''"
    by code_simp+
  have ord11: "suffixOrdinal ''zzzzzzzzzzz'' = 3817158266467286"
    and ord12: "suffixOrdinal (suffixLetters ''1-zzzzzzzzzzzz'') = 99246114928149462"
    by code_simp+
  have base: "parseInt10 ''1'' = enat 1"
    by code_simp
  have "foldl suffixStep 0 (map upperChar ''zzzzzzzzzzz'') = enat 3817158266467286"
    using suffix_fold_exact [OF letters] by (simp add: ord11)
  then have eleven: "foldl suffixStep 0 ''ZZZZZZZZZZZ'' = enat 3817158266467286"
    by (simp only: upper)
  have times: "toNumber 99246114928149436 = enat 99246114928149440"
    by (simp add: toNumber_def bitLength_pos bitLength_zero Let_def)
  have plus: "toNumber 99246114928149466 = enat 99246114928149472"
    by (simp add: toNumber_def bitLength_pos bitLength_zero Let_def)
  have z: "charCode CHR ''Z'' - 64 = 26"
    by (simp add: charCode_def)
  have snoc: "foldl f a (xs @ [x]) = f (foldl f a xs) x" for f :: "enat \<Rightarrow> char \<Rightarrow> enat"
      and a xs x
    by simp
  have "foldl suffixStep 0 (''ZZZZZZZZZZZ'' @ ''Z'')
      = suffixStep (foldl suffixStep 0 ''ZZZZZZZZZZZ'') CHR ''Z''"
    by (rule snoc)
  also have "\<dots> = suffixStep (enat 3817158266467286) CHR ''Z''"
    by (simp only: eleven)
  also have "\<dots> = enat 99246114928149472"
    by (simp add: suffixStep_def numTimes_def numPlus_def z times plus)
  finally have "foldl suffixStep 0 (''ZZZZZZZZZZZ'' @ ''Z'') = enat 99246114928149472" .
  with v run suf ord12 base show ?thesis
    by (simp add: chapterToken_valid)
qed

subsection \<open>The order of the tokens\<close>

lemma tokenLe_refl: "tokenLe t t"
  by (simp add: tokenLe_def)

lemma tokenLe_total: "tokenLe s t \<or> tokenLe t s"
  by (auto simp: tokenLe_def)

lemma tokenLe_trans: "tokenLe s t \<Longrightarrow> tokenLe t u \<Longrightarrow> tokenLe s u"
  by (auto simp: tokenLe_def)

lemma tokenLt_iff: "tokenLt s t \<longleftrightarrow> tokenLe s t \<and> \<not> tokenLe t s"
  by (auto simp: tokenLt_def tokenLe_def)

subsection \<open>The citation pattern\<close>

lemma isDigit_not_colon: "isDigit c \<Longrightarrow> c \<noteq> CHR '':''"
  by (auto simp: isDigit_def charCode_def)

lemma isLetter_colon [simp]: "\<not> isLetter CHR '':''"
  by (simp add: isLetter_def isLowerLetter_def isUpperLetter_def charCode_def)

lemma takeWhile_isDigit_beforeColon:
  "takeWhile isDigit (beforeColon s) = takeWhile isDigit s"
  by (induction s) (auto simp: beforeColon_def isDigit_not_colon)

lemma dropWhile_isDigit_split:
  "dropWhile isDigit s = dropWhile isDigit (beforeColon s) @ fromColon s"
  by (induction s) (auto simp: beforeColon_def fromColon_def isDigit_not_colon)

lemma fromColon_cases: "fromColon s = [] \<or> (\<exists>x. fromColon s = CHR '':'' # x)"
proof (cases "fromColon s")
  case Nil
  then show ?thesis by simp
next
  case (Cons c x)
  then have "c = CHR '':''"
    using hd_dropWhile [of "\<lambda>c. c \<noteq> CHR '':''" s] by (simp add: fromColon_def)
  with Cons show ?thesis by simp
qed

lemma beforeColon_no_colon: "c \<in> set (beforeColon s) \<Longrightarrow> c \<noteq> CHR '':''"
  by (auto simp: beforeColon_def dest: set_takeWhileD)

lemma matchAfterDigits_split:
  assumes "\<forall>c\<in>set d. c \<noteq> CHR '':''"
    and "r = [] \<or> (\<exists>x. r = CHR '':'' # x)"
  shows "matchAfterDigits ds (d @ r) =
     (if (case d of [] \<Rightarrow> True | [c, l] \<Rightarrow> c = CHR ''-'' \<and> isLetter l | _ \<Rightarrow> False) \<and>
         (r = [] \<or> validSection (tl r))
      then Some (ds @ d, if r = [] then None else Some (tl r))
      else None)"
proof (cases d)
  case Nil
  with assms show ?thesis
    by (auto simp: matchAfterDigits_def validSection_def split: list.splits)
next
  case outer: (Cons a d1)
  show ?thesis
  proof (cases d1)
    case Nil
    with outer assms show ?thesis
      by (auto simp: matchAfterDigits_def validSection_def split: list.splits)
  next
    case middle: (Cons b d2)
    show ?thesis
    proof (cases d2)
      case Nil
      with outer middle assms show ?thesis
        by (auto simp: matchAfterDigits_def validSection_def split: list.splits)
    next
      case (Cons e t)
      with outer middle assms show ?thesis
        by (auto simp: matchAfterDigits_def validSection_def split: list.splits)
    qed
  qed
qed

lemma matchCitation_grammar:
  "matchCitation s =
     (if codeCitation s
      then Some (beforeColon s, if fromColon s = [] then None else Some (tl (fromColon s)))
      else None)"
proof -
  let ?ds = "takeWhile isDigit s"
  let ?d = "dropWhile isDigit (beforeColon s)"
  let ?r = "fromColon s"
  have ch: "?ds @ ?d = beforeColon s"
    using takeWhile_dropWhile_id [of isDigit "beforeColon s"]
    by (simp add: takeWhile_isDigit_beforeColon)
  have rest: "dropWhile isDigit s = ?d @ ?r"
    by (rule dropWhile_isDigit_split)
  have d_no_colon: "\<forall>c\<in>set ?d. c \<noteq> CHR '':''"
    using beforeColon_no_colon [of _ s] set_dropWhileD [of _ isDigit "beforeColon s"]
    by blast
  have dr: "digitRun (beforeColon s) = ?ds"
    by (simp add: digitRun_def takeWhile_isDigit_beforeColon)
  have "matchCitation s = (if ?ds = [] then None else matchAfterDigits ?ds (?d @ ?r))"
    by (simp only: matchCitation_def Let_def rest)
  also have "\<dots> = (if ?ds = [] then None
      else if (case ?d of [] \<Rightarrow> True | [c, l] \<Rightarrow> c = CHR ''-'' \<and> isLetter l | _ \<Rightarrow> False) \<and>
              (?r = [] \<or> validSection (tl ?r))
           then Some (?ds @ ?d, if ?r = [] then None else Some (tl ?r))
           else None)"
    by (simp only: matchAfterDigits_split [OF d_no_colon fromColon_cases])
  also have "\<dots> = (if codeCitation s
      then Some (beforeColon s, if ?r = [] then None else Some (tl ?r)) else None)"
    by (simp only: codeCitation_def singleLetterChapter_def dr ch) auto
  finally show ?thesis .
qed

subsection \<open>Parsing and lower case\<close>

lemma toLowerCase_Nil [simp]: "toLowerCase [] = []"
  by (simp add: toLowerCase_def)

lemma toLowerCase_Cons [simp]: "toLowerCase (c # cs) = lowerChar c # toLowerCase cs"
  by (simp add: toLowerCase_def)

lemma toLowerCase_eq_Nil [simp]: "toLowerCase s = [] \<longleftrightarrow> s = []"
  by (simp add: toLowerCase_def)

lemma list_all_isLetter_lower [simp]:
  "list_all isLetter (toLowerCase ls) = list_all isLetter ls"
  by (induction ls) auto

lemma takeWhile_isDigit_lower:
  "takeWhile isDigit (toLowerCase s) = toLowerCase (takeWhile isDigit s)"
  by (simp add: toLowerCase_def takeWhile_map comp_def)

lemma dropWhile_isDigit_lower:
  "dropWhile isDigit (toLowerCase s) = toLowerCase (dropWhile isDigit s)"
  by (simp add: toLowerCase_def dropWhile_map comp_def)

lemma validChapter_toLowerCase [simp]: "validChapter (toLowerCase s) = validChapter s"
  by (cases "dropWhile isDigit s")
    (simp_all add: validChapter_def digitRun_def takeWhile_isDigit_lower
      dropWhile_isDigit_lower del: dropWhile_eq_Nil_conv)

lemma singleLetterChapter_toLowerCase [simp]:
  "singleLetterChapter (toLowerCase s) = singleLetterChapter s"
  by (cases "dropWhile isDigit s")
    (auto simp add: singleLetterChapter_def digitRun_def takeWhile_isDigit_lower
      dropWhile_isDigit_lower simp del: dropWhile_eq_Nil_conv split: list.splits)

lemma singleLetterChapter_valid: "singleLetterChapter s \<Longrightarrow> validChapter s"
  by (auto simp add: singleLetterChapter_def validChapter_def simp del: dropWhile_eq_Nil_conv
      split: list.splits)

lemma parseRSA_grammar:
  "parseRSA unicodeLower input =
     (case toChars (normalize_str unicodeLower input) of
        None \<Rightarrow> Inl ParseError
      | Some n \<Rightarrow>
          (let s = stripRsa n in
           if codeCitation s
           then Inr \<lparr>cit_chapter = toLowerCase (beforeColon s),
                     cit_section = (if fromColon s = [] then None
                                    else Some (toLowerCase (tl (fromColon s))))\<rparr>
           else Inl ParseError))"
  by (auto simp: parseRSA_def matchCitation_grammar Let_def codeCitation_def validSection_def
      split: option.splits)

subsection \<open>The range scan\<close>






section \<open>Claims\<close>

text \<open>
  C1. The specification's grammar lets a chapter carry any number of suffix letters, and so
  does the pattern of \<open>chapterToken\<close>; the pattern of \<open>parseRSA\<close> takes exactly one. The
  input \<^verbatim>\<open>225-aa\<close> is its own normal form, matches the specification's grammar and has
  the token (225, 27), and \<open>parseRSA\<close> rejects it with the parse error.
\<close>

theorem parseRSA_two_letters:
  "normalize_str unicodeLower (Some (codeUnits ''225-aa'')) = codeUnits ''225-aa'' \<and>
   specCitation (stripRsa ''225-aa'') \<and>
   chapterToken ''225-aa'' = Inr (225, 27) \<and>
   parseRSA unicodeLower (Some (codeUnits ''225-aa'')) = Inl ParseError"
proof -
  have below: "list_all (\<lambda>u. u < 256) (codeUnits ''225-aa'')"
    by code_simp
  have "filter (\<lambda>u. \<not> isWhiteSpace u) (map lowerUnit (codeUnits ''225-aa''))
      = codeUnits ''225-aa''"
    by code_simp
  with normalize_below_256 [OF below]
  have normal: "normalize_str unicodeLower (Some (codeUnits ''225-aa'')) = codeUnits ''225-aa''"
    by simp
  have chars: "toChars (codeUnits ''225-aa'') = Some ''225-aa''"
    by code_simp
  have spec: "specCitation (stripRsa ''225-aa'')"
    and rejected: "\<not> codeCitation (stripRsa ''225-aa'')"
    by code_simp+
  have token: "chapterToken ''225-aa'' = Inr (225, 27)"
    by code_simp
  have "parseRSA unicodeLower (Some (codeUnits ''225-aa'')) = Inl ParseError"
    by (simp add: parseRSA_grammar normal chars rejected)
  with normal spec token show ?thesis
    by simp
qed

theorem parseRSA_two_letters_witness:
  "parseRSA (\<lambda>s. s) (Some (codeUnits ''225-aa'')) = Inl ParseError"
  using parseRSA_two_letters [of "\<lambda>s. s"] by simp

text \<open>
  C2, as the specification states it, fails: the direct hit is taken when the looked-up
  value is truthy, not when the key is present. With the key \<^verbatim>\<open>10\<close> mapped to the
  empty string and a range from 1 to 20, the resolver returns the folder of the range, not
  the value of the key.
\<close>

theorem folderForChapter_direct_counterexample:
  "directLookup ''10''
     \<lparr>chapter_to_title = Some [''10'' \<mapsto> ''''],
      title_ranges = Some [\<lparr>tr_start = ''1'', tr_end = ''20'', tr_folder = ''title1''\<rparr>]\<rparr>
     = Some '''' \<and>
   folderForChapter ''10''
     \<lparr>chapter_to_title = Some [''10'' \<mapsto> ''''],
      title_ranges = Some [\<lparr>tr_start = ''1'', tr_end = ''20'', tr_folder = ''title1''\<rparr>]\<rparr>
     = Inr (Some ''title1'')"
  by code_simp

text \<open>
  C2, amended. For every chapter string and every mapping payload, if \<open>chapter_to_title\<close>
  maps the chapter to a non-empty string, \<open>folderForChapter\<close> returns that string whatever
  \<open>title_ranges\<close> holds (it is not scanned); in particular a chapter that is such a key and
  also lies inside a listed range with another folder resolves to the folder of the key.
\<close>

theorem folderForChapter_direct:
  assumes "m chapter = Some f" and "f \<noteq> []"
  shows "folderForChapter chapter \<lparr>chapter_to_title = Some m, title_ranges = r\<rparr> = Inr (Some f)"
  using assms by (simp add: folderForChapter_def directLookup_def truthy_def)

theorem folderForChapter_direct_witness:
  "[''10'' \<mapsto> ''title2''] ''10'' = Some ''title2'' \<and> ''title2'' \<noteq> [] \<and>
   inRange ''10'' ''1'' ''20'' = Inr True \<and>
   folderForChapter ''10''
     \<lparr>chapter_to_title = Some [''10'' \<mapsto> ''title2''],
      title_ranges = Some [\<lparr>tr_start = ''1'', tr_end = ''20'', tr_folder = ''title1''\<rparr>]\<rparr>
     = Inr (Some ''title2'')"
proof -
  have key: "[''10'' \<mapsto> ''title2''] ''10'' = Some ''title2''" and folder: "''title2'' \<noteq> []"
    by simp_all
  have inside: "inRange ''10'' ''1'' ''20'' = Inr True"
    by code_simp
  from folderForChapter_direct [of "[''10'' \<mapsto> ''title2'']" "''10''" "''title2''"
      "Some [\<lparr>tr_start = ''1'', tr_end = ''20'', tr_folder = ''title1''\<rparr>]", OF key folder]
    key folder inside
  show ?thesis
    by (simp only: simp_thms)
qed

text \<open>
  C3. The tokens of 225, 225-a, 225-b, 225-z, 225-aa and 226 form a strictly increasing
  chain in the order that compares the base first and the suffix ordinal second. Every
  valid chapter string has a token, and on these tokens the order \<open>tokenLe\<close> of
  \<open>inRange\<close> is reflexive, total and transitive, with \<open>tokenLt\<close> as its strict part.
\<close>

theorem token_order:
  "chapterToken ''225'' = Inr (225, 0) \<and>
   chapterToken ''225-a'' = Inr (225, 1) \<and>
   chapterToken ''225-b'' = Inr (225, 2) \<and>
   chapterToken ''225-z'' = Inr (225, 26) \<and>
   chapterToken ''225-aa'' = Inr (225, 27) \<and>
   chapterToken ''226'' = Inr (226, 0) \<and>
   tokenLt (225, 0) (225, 1) \<and> tokenLt (225, 1) (225, 2) \<and> tokenLt (225, 2) (225, 26) \<and>
   tokenLt (225, 26) (225, 27) \<and> tokenLt (225, 27) (226, 0) \<and>
   (validChapter a \<and> validChapter b \<and> validChapter c \<longrightarrow>
     (\<exists>ta tb tc.
        chapterToken a = Inr ta \<and> chapterToken b = Inr tb \<and> chapterToken c = Inr tc \<and>
        tokenLe ta ta \<and>
        (tokenLe ta tb \<or> tokenLe tb ta) \<and>
        (tokenLe ta tb \<and> tokenLe tb tc \<longrightarrow> tokenLe ta tc) \<and>
        (tokenLt ta tb \<longleftrightarrow> tokenLe ta tb \<and> \<not> tokenLe tb ta)))"
proof -
  have chain: "chapterToken ''225'' = Inr (225, 0)" "chapterToken ''225-a'' = Inr (225, 1)"
    "chapterToken ''225-b'' = Inr (225, 2)" "chapterToken ''225-z'' = Inr (225, 26)"
    "chapterToken ''225-aa'' = Inr (225, 27)" "chapterToken ''226'' = Inr (226, 0)"
    by code_simp+
  have strict: "tokenLt (225, 0) (225, 1)" "tokenLt (225, 1) (225, 2)"
    "tokenLt (225, 2) (225, 26)" "tokenLt (225, 26) (225, 27)" "tokenLt (225, 27) (226, 0)"
    by (simp_all add: tokenLt_def)
  have order: "\<exists>ta tb tc.
        chapterToken a = Inr ta \<and> chapterToken b = Inr tb \<and> chapterToken c = Inr tc \<and>
        tokenLe ta ta \<and>
        (tokenLe ta tb \<or> tokenLe tb ta) \<and>
        (tokenLe ta tb \<and> tokenLe tb tc \<longrightarrow> tokenLe ta tc) \<and>
        (tokenLt ta tb \<longleftrightarrow> tokenLe ta tb \<and> \<not> tokenLe tb ta)"
    if "validChapter a" "validChapter b" "validChapter c"
    using that tokenLe_total tokenLe_trans
    by (auto simp: chapterToken_valid tokenLe_refl tokenLt_iff)
  from chain strict order show ?thesis
    by blast
qed

theorem token_order_witness:
  "validChapter ''225-a'' \<and> validChapter ''540'' \<and> validChapter ''7-zz'' \<and>
   (\<exists>ta tb tc.
      chapterToken ''225-a'' = Inr ta \<and> chapterToken ''540'' = Inr tb \<and>
      chapterToken ''7-zz'' = Inr tc \<and>
      tokenLe ta ta \<and> (tokenLe ta tb \<or> tokenLe tb ta))"
proof -
  have v: "validChapter ''225-a''" "validChapter ''540''" "validChapter ''7-zz''"
    by code_simp+
  with token_order [of "''225-a''" "''540''" "''7-zz''"] show ?thesis
    by blast
qed

text \<open>
  C4, as the specification states it, fails: the two components are JavaScript numbers,
  and an integer that no double represents is rounded. The chapter
  \<^verbatim>\<open>9007199254740993\<close> (\<open>2 ^ 53 + 1\<close>) is valid, and its token's base is
  \<open>9007199254740992\<close>; the suffix of twelve letters z has the ordinal
  \<open>99246114928149462\<close>, and the fold of \<open>chapterToken\<close> gives \<open>99246114928149472\<close>.
\<close>

theorem chapterToken_value_counterexample:
  "validChapter ''9007199254740993'' \<and>
   decimalValue (digitRun ''9007199254740993'') = 9007199254740993 \<and>
   chapterToken ''9007199254740993'' = Inr (enat 9007199254740992, enat 0) \<and>
   validChapter ''1-zzzzzzzzzzzz'' \<and>
   suffixOrdinal (suffixLetters ''1-zzzzzzzzzzzz'') = 99246114928149462 \<and>
   chapterToken ''1-zzzzzzzzzzzz'' = Inr (enat 1, enat 99246114928149472)"
  using base_rounding_example suffix_rounding_example by blast

text \<open>
  C4, amended. For every valid chapter string, \<open>chapterToken\<close> returns a pair (base,
  suffixOrdinal). The base is the integer value of the digit run whenever that value is at
  most \<open>2 ^ 53\<close>. The suffixOrdinal is the left fold of \<open>acc * 26 + letterPosition\<close> over the
  suffix letters from 0, the position being 1 for a and A up to 26 for z and Z, whenever
  the value of that fold is at most \<open>2 ^ 53\<close>. So no suffix yields 0, a yields 1, Z yields
  26, aa yields 27.
\<close>

theorem chapterToken_value:
  assumes "validChapter c"
  shows "\<exists>b n. chapterToken c = Inr (b, n) \<and>
     (decimalValue (digitRun c) \<le> 2 ^ 53 \<longrightarrow> b = enat (decimalValue (digitRun c))) \<and>
     (suffixOrdinal (suffixLetters c) \<le> 2 ^ 53 \<longrightarrow>
        n = enat (suffixOrdinal (suffixLetters c)))"
proof -
  from assms have letters: "list_all isLetter (suffixLetters c)"
    by (rule validChapter_letters)
  have suffix: "foldl suffixStep 0 (map upperChar (suffixLetters c))
      = enat (suffixOrdinal (suffixLetters c))"
    if "suffixOrdinal (suffixLetters c) \<le> 2 ^ 53"
    using letters that by (rule suffix_fold_exact)
  have base: "parseInt10 (digitRun c) = enat (decimalValue (digitRun c))"
    if "decimalValue (digitRun c) \<le> 2 ^ 53"
    using that by (simp add: parseInt10_def toNumber_exact)
  from assms base suffix show ?thesis
    by (simp add: chapterToken_valid)
qed

theorem chapterToken_value_witness:
  "chapterToken ''225'' = Inr (enat 225, enat 0) \<and>
   chapterToken ''225-a'' = Inr (enat 225, enat 1) \<and>
   chapterToken ''225-Z'' = Inr (enat 225, enat 26) \<and>
   chapterToken ''225-aa'' = Inr (enat 225, enat 27)"
proof -
  have v: "validChapter ''225''" "validChapter ''225-a''" "validChapter ''225-Z''"
    "validChapter ''225-aa''"
    by code_simp+
  have d: "decimalValue (digitRun ''225'') = 225" "decimalValue (digitRun ''225-a'') = 225"
    "decimalValue (digitRun ''225-Z'') = 225" "decimalValue (digitRun ''225-aa'') = 225"
    by code_simp+
  have s: "suffixOrdinal (suffixLetters ''225'') = 0"
    "suffixOrdinal (suffixLetters ''225-a'') = 1"
    "suffixOrdinal (suffixLetters ''225-Z'') = 26"
    "suffixOrdinal (suffixLetters ''225-aa'') = 27"
    by code_simp+
  have "chapterToken ''225'' = Inr (enat 225, enat 0)"
    using chapterToken_value [OF v(1)] by (auto simp: d s)
  moreover have "chapterToken ''225-a'' = Inr (enat 225, enat 1)"
    using chapterToken_value [OF v(2)] by (auto simp: d s)
  moreover have "chapterToken ''225-Z'' = Inr (enat 225, enat 26)"
    using chapterToken_value [OF v(3)] by (auto simp: d s)
  moreover have "chapterToken ''225-aa'' = Inr (enat 225, enat 27)"
    using chapterToken_value [OF v(4)] by (auto simp: d s)
  ultimately show ?thesis
    by blast
qed

text \<open>
  C5. For every chapter, section and folder, \<open>buildUrl\<close> fails with \<open>MissingFolder\<close>
  exactly when the folder is null or empty, and fails in no other way. Otherwise, with a
  (non-empty) section the URL is \<open>BASE/folder/chapter/chapter-section.htm\<close>, and with a null
  section it is \<open>BASE/folder/chapter/chapter-mrg.htm\<close>, chapter and section verbatim.
\<close>

theorem buildUrl_spec:
  "(buildUrl chapter sec folder = Inl (MissingFolder chapter))
     = (folder = None \<or> folder = Some []) \<and>
   (\<forall>e. buildUrl chapter sec folder = Inl e \<longrightarrow> e = MissingFolder chapter) \<and>
   (f \<noteq> [] \<and> s \<noteq> [] \<longrightarrow>
      buildUrl chapter (Some s) (Some f)
        = Inr (BASE @ ''/'' @ f @ ''/'' @ chapter @ ''/'' @ chapter @ ''-'' @ s @ ''.htm'')) \<and>
   (f \<noteq> [] \<longrightarrow>
      buildUrl chapter None (Some f)
        = Inr (BASE @ ''/'' @ f @ ''/'' @ chapter @ ''/'' @ chapter @ ''-mrg.htm''))"
proof -
  have fails: "(buildUrl chapter sec folder = Inl (MissingFolder chapter))
      = (folder = None \<or> folder = Some [])"
    by (cases folder; cases sec) (simp_all add: buildUrl_def truthy_def)
  have no_other: "\<forall>e. buildUrl chapter sec folder = Inl e \<longrightarrow> e = MissingFolder chapter"
    by (cases folder; cases sec) (simp_all add: buildUrl_def truthy_def)
  have with_section: "f \<noteq> [] \<and> s \<noteq> [] \<longrightarrow>
      buildUrl chapter (Some s) (Some f)
        = Inr (BASE @ ''/'' @ f @ ''/'' @ chapter @ ''/'' @ chapter @ ''-'' @ s @ ''.htm'')"
    by (simp add: buildUrl_def truthy_def)
  have merged: "f \<noteq> [] \<longrightarrow>
      buildUrl chapter None (Some f)
        = Inr (BASE @ ''/'' @ f @ ''/'' @ chapter @ ''/'' @ chapter @ ''-mrg.htm'')"
    by (simp add: buildUrl_def truthy_def)
  from fails no_other with_section merged show ?thesis
    by (intro conjI)
qed

theorem buildUrl_spec_witness:
  "buildUrl ''225-a'' (Some ''24'') (Some ''title18'')
     = Inr ''https://gc.nh.gov/rsa/html/title18/225-a/225-a-24.htm'' \<and>
   buildUrl ''540-a'' None (Some ''title18'')
     = Inr ''https://gc.nh.gov/rsa/html/title18/540-a/540-a-mrg.htm'' \<and>
   buildUrl ''265-b'' None None = Inl (MissingFolder ''265-b'')"
proof -
  have u1: "BASE @ ''/'' @ ''title18'' @ ''/'' @ ''225-a'' @ ''/'' @ ''225-a'' @ ''-'' @ ''24'' @ ''.htm''
      = ''https://gc.nh.gov/rsa/html/title18/225-a/225-a-24.htm''"
    by code_simp
  have u2: "BASE @ ''/'' @ ''title18'' @ ''/'' @ ''540-a'' @ ''/'' @ ''540-a'' @ ''-mrg.htm''
      = ''https://gc.nh.gov/rsa/html/title18/540-a/540-a-mrg.htm''"
    by code_simp
  have n: "''title18'' \<noteq> []" "''24'' \<noteq> []"
    by simp_all
  note spec = buildUrl_spec [of "''225-a''" None None "''title18''" "''24''"]
    buildUrl_spec [of "''540-a''" None None "''title18''" "''24''"]
    buildUrl_spec [of "''265-b''" None None "''title18''" "''24''"]
  have "''title18'' \<noteq> [] \<and> ''24'' \<noteq> [] \<longrightarrow>
      buildUrl ''225-a'' (Some ''24'') (Some ''title18'')
        = Inr (BASE @ ''/'' @ ''title18'' @ ''/'' @ ''225-a'' @ ''/'' @ ''225-a'' @ ''-'' @ ''24'' @ ''.htm'')"
    by (rule conjunct1 [OF conjunct2 [OF conjunct2 [OF spec(1)]]])
  with n have "buildUrl ''225-a'' (Some ''24'') (Some ''title18'')
     = Inr ''https://gc.nh.gov/rsa/html/title18/225-a/225-a-24.htm''"
    by (simp only: u1 simp_thms)
  moreover have "''title18'' \<noteq> [] \<longrightarrow>
      buildUrl ''540-a'' None (Some ''title18'')
        = Inr (BASE @ ''/'' @ ''title18'' @ ''/'' @ ''540-a'' @ ''/'' @ ''540-a'' @ ''-mrg.htm'')"
    by (rule conjunct2 [OF conjunct2 [OF conjunct2 [OF spec(2)]]])
  with n have "buildUrl ''540-a'' None (Some ''title18'')
     = Inr ''https://gc.nh.gov/rsa/html/title18/540-a/540-a-mrg.htm''"
    by (simp only: u2 simp_thms)
  moreover have "(buildUrl ''265-b'' None None = Inl (MissingFolder ''265-b''))
      = ((None :: string option) = None \<or> (None :: string option) = Some [])"
    by (rule conjunct1 [OF spec(3)])
  then have "buildUrl ''265-b'' None None = Inl (MissingFolder ''265-b'')"
    by simp
  ultimately show ?thesis
    by (intro conjI)
qed




text \<open>
  C7. For every valid chapter string \<open>c\<close>, \<open>inRange c c c\<close> is true: both bounds are
  inclusive.
\<close>

theorem inRange_degenerate: "validChapter c \<Longrightarrow> inRange c c c = Inr True"
  by (simp add: inRange_def chapterToken_valid tokenLe_refl)

theorem inRange_degenerate_witness:
  "validChapter ''225-a'' \<and> inRange ''225-a'' ''225-a'' ''225-a'' = Inr True"
proof -
  have v: "validChapter ''225-a''"
    by code_simp
  with inRange_degenerate [of "''225-a''"] show ?thesis
    by simp
qed

text \<open>
  C8. For every input string, and for a null or undefined input, \<open>normalize\<close> (here
  \<open>normalize_str\<close>) returns the input trimmed, lowercased and with every whitespace run
  removed: the trimmed input is the input without its leading and its trailing whitespace,
  and the result is the lowercased trimmed input without its whitespace, so it holds no
  whitespace at all. On an input of code units below 256 it is the input with each code
  unit lowercased and the whitespace left out. Null and undefined give the empty string.
  The function is total: it has no failing branch.
\<close>

theorem normalize_spec:
  "normalize_str unicodeLower None = [] \<and>
   normalize_str unicodeLower (Some s)
     = filter (\<lambda>u. \<not> isWhiteSpace u) (toLowerCaseInput unicodeLower (trim s)) \<and>
   (\<exists>pre post. s = pre @ trim s @ post \<and>
      list_all isWhiteSpace pre \<and> list_all isWhiteSpace post) \<and>
   (trim s = [] \<or> (\<not> isWhiteSpace (hd (trim s)) \<and> \<not> isWhiteSpace (last (trim s)))) \<and>
   (list_all (\<lambda>u. u < 256) s \<longrightarrow>
      normalize_str unicodeLower (Some s)
        = filter (\<lambda>u. \<not> isWhiteSpace u) (map lowerUnit s)) \<and>
   list_all (\<lambda>u. \<not> isWhiteSpace u) (normalize_str unicodeLower x)"
proof -
  have none: "normalize_str unicodeLower None = []"
    by (simp add: normalize_str_def trim_def toLowerCaseInput_def)
  have clean: "list_all (\<lambda>u. \<not> isWhiteSpace u) (normalize_str unicodeLower x)"
  proof (cases x)
    case None
    then show ?thesis by (simp add: none)
  next
    case (Some t)
    then show ?thesis
      by (simp add: normalize_Some list_all_iff)
  qed
  from none normalize_Some [of unicodeLower s] trim_inside [of s] trim_ends [of s]
    normalize_below_256 [of s unicodeLower] clean
  show ?thesis
    by blast
qed

theorem normalize_spec_witness:
  "normalize_str (\<lambda>s. s) (Some (codeUnits ''  RSA 225-A : 24 '')) = codeUnits ''rsa225-a:24'' \<and>
   normalize_str (\<lambda>s. s)
       (Some [160, 64, 65, 90, 91, 9, 191, 192, 214, 215, 216, 222, 223, 133, 159, 161, 32])
     = [64, 97, 122, 91, 191, 224, 246, 215, 248, 254, 223, 133, 159, 161] \<and>
   normalize_str (\<lambda>s. s)
       (Some [65279, 8, 9, 10, 11, 12, 13, 14, 31, 32, 33, 5759, 5760, 5761, 8191, 8192, 8193,
              8194, 8195, 8196, 8197, 8198, 8199, 8200, 8201, 8202, 8203, 8231, 8232, 8233,
              8234, 8238, 8239, 8240, 8286, 8287, 8288, 12287, 12288, 12289, 65278, 65279,
              65280, 160])
     = [8, 14, 31, 33, 5759, 5761, 8191, 8203, 8231, 8234, 8238, 8240, 8286, 8288, 12287,
        12289, 65278, 65280] \<and>
   normalize_str (\<lambda>s. s) None = []"
proof -
  let ?a = "codeUnits ''  RSA 225-A : 24 ''"
  let ?b = "[160, 64, 65, 90, 91, 9, 191, 192, 214, 215, 216, 222, 223, 133, 159, 161, 32]
    :: nat list"
  let ?c = "[65279, 8, 9, 10, 11, 12, 13, 14, 31, 32, 33, 5759, 5760, 5761, 8191, 8192, 8193,
              8194, 8195, 8196, 8197, 8198, 8199, 8200, 8201, 8202, 8203, 8231, 8232, 8233,
              8234, 8238, 8239, 8240, 8286, 8287, 8288, 12287, 12288, 12289, 65278, 65279,
              65280, 160] :: nat list"
  have below: "list_all (\<lambda>u. u < 256) ?a" "list_all (\<lambda>u. u < 256) ?b"
    by code_simp+
  have a: "filter (\<lambda>u. \<not> isWhiteSpace u) (map lowerUnit ?a) = codeUnits ''rsa225-a:24''"
    by code_simp
  have b: "filter (\<lambda>u. \<not> isWhiteSpace u) (map lowerUnit ?b)
      = [64, 97, 122, 91, 191, 224, 246, 215, 248, 254, 223, 133, 159, 161]"
    by code_simp
  have c: "filter (\<lambda>u. \<not> isWhiteSpace u) (toLowerCaseInput (\<lambda>s. s) (trim ?c))
      = [8, 14, 31, 33, 5759, 5761, 8191, 8203, 8231, 8234, 8238, 8240, 8286, 8288, 12287,
         12289, 65278, 65280]"
    by code_simp
  have "normalize_str (\<lambda>s. s) (Some ?a) = filter (\<lambda>u. \<not> isWhiteSpace u) (map lowerUnit ?a)"
    using normalize_spec [of "\<lambda>s. s" ?a None] below(1) by blast
  then have first: "normalize_str (\<lambda>s. s) (Some ?a) = codeUnits ''rsa225-a:24''"
    by (simp only: a)
  have "normalize_str (\<lambda>s. s) (Some ?b) = filter (\<lambda>u. \<not> isWhiteSpace u) (map lowerUnit ?b)"
    using normalize_spec [of "\<lambda>s. s" ?b None] below(2) by blast
  then have second: "normalize_str (\<lambda>s. s) (Some ?b)
      = [64, 97, 122, 91, 191, 224, 246, 215, 248, 254, 223, 133, 159, 161]"
    by (simp only: b)
  have "normalize_str (\<lambda>s. s) (Some ?c)
      = filter (\<lambda>u. \<not> isWhiteSpace u) (toLowerCaseInput (\<lambda>s. s) (trim ?c))"
    using normalize_spec [of "\<lambda>s. s" ?c None] by blast
  then have third: "normalize_str (\<lambda>s. s) (Some ?c)
      = [8, 14, 31, 33, 5759, 5761, 8191, 8203, 8231, 8234, 8238, 8240, 8286, 8288, 12287,
         12289, 65278, 65280]"
    by (simp only: c)
  have "normalize_str (\<lambda>s. s) None = []"
    using normalize_spec [of "\<lambda>s. s" "[]" None] by blast
  with first second third show ?thesis
    by blast
qed

text \<open>
  C9. For every input on which \<open>parseRSA\<close> succeeds, \<open>chapterToken\<close> of the returned
  chapter succeeds: the chapter is a digit run optionally followed by a hyphen and one
  letter, in lower case, which the pattern of \<open>chapterToken\<close> accepts.
\<close>

theorem parsed_chapter_has_token:
  assumes "parseRSA unicodeLower input = Inr cit"
  shows "singleLetterChapter (cit_chapter cit) \<and>
         list_all (\<lambda>c. \<not> isUpperLetter c) (cit_chapter cit) \<and>
         (\<exists>t. chapterToken (cit_chapter cit) = Inr t)"
proof -
  from assms obtain n where "toChars (normalize_str unicodeLower input) = Some n"
    by (auto simp: parseRSA_grammar split: option.splits)
  with assms have cc: "codeCitation (stripRsa n)"
    and chap: "cit_chapter cit = toLowerCase (beforeColon (stripRsa n))"
    by (auto simp: parseRSA_grammar Let_def split: if_splits)
  from cc have single: "singleLetterChapter (cit_chapter cit)"
    by (simp add: chap codeCitation_def)
  then have "validChapter (cit_chapter cit)"
    by (rule singleLetterChapter_valid)
  then have "\<exists>t. chapterToken (cit_chapter cit) = Inr t"
    by (simp add: chapterToken_valid)
  moreover have "list_all (\<lambda>c. \<not> isUpperLetter c) (cit_chapter cit)"
    by (simp add: chap toLowerCase_def list_all_iff isUpperLetter_lowerChar)
  ultimately show ?thesis
    using single by simp
qed

theorem parsed_chapter_has_token_witness:
  "parseRSA (\<lambda>s. s) (Some (codeUnits ''RSA 225-A : 24''))
     = Inr \<lparr>cit_chapter = ''225-a'', cit_section = Some ''24''\<rparr> \<and>
   singleLetterChapter ''225-a'' \<and>
   (\<exists>t. chapterToken ''225-a'' = Inr t)"
proof -
  have p: "parseRSA (\<lambda>s. s) (Some (codeUnits ''RSA 225-A : 24''))
      = Inr \<lparr>cit_chapter = ''225-a'', cit_section = Some ''24''\<rparr>"
    by code_simp
  from parsed_chapter_has_token [OF p] p show ?thesis
    by simp
qed

text \<open>
  C10. The direct hit of \<open>folderForChapter\<close> is decided by the truthiness of the looked-up
  value: a chapter mapped to a non-empty string resolves to that string whatever the ranges
  are, and a chapter mapped to the empty string is resolved by the range scan, as the two
  payloads for \<^verbatim>\<open>540-a\<close> show. A payload without \<open>chapter_to_title\<close> is resolved by the
  range scan; one without \<open>title_ranges\<close> gives null when the chapter is mapped to the empty
  string, or is a chapter string that is no key; one without both members gives null. None
  of these raises.
\<close>

theorem folderForChapter_truthiness:
  "(m chapter = Some f \<and> f \<noteq> [] \<longrightarrow>
      folderForChapter chapter \<lparr>chapter_to_title = Some m, title_ranges = r\<rparr> = Inr (Some f)) \<and>
   (m chapter = Some [] \<longrightarrow>
      folderForChapter chapter \<lparr>chapter_to_title = Some m, title_ranges = Some rs\<rparr>
        = scanRanges chapter rs) \<and>
   folderForChapter ''540-a''
     \<lparr>chapter_to_title = Some [''540-a'' \<mapsto> ''title18''],
      title_ranges = Some [\<lparr>tr_start = ''500'', tr_end = ''600'', tr_folder = ''title55''\<rparr>]\<rparr>
     = Inr (Some ''title18'') \<and>
   folderForChapter ''540-a''
     \<lparr>chapter_to_title = Some [''540-a'' \<mapsto> ''''],
      title_ranges = Some [\<lparr>tr_start = ''500'', tr_end = ''600'', tr_folder = ''title55''\<rparr>]\<rparr>
     = Inr (Some ''title55'') \<and>
   folderForChapter chapter \<lparr>chapter_to_title = None, title_ranges = Some rs\<rparr>
     = scanRanges chapter rs \<and>
   (m chapter = Some [] \<longrightarrow>
      folderForChapter chapter \<lparr>chapter_to_title = Some m, title_ranges = None\<rparr> = Inr None) \<and>
   (validChapter chapter \<and> m chapter = None \<longrightarrow>
      folderForChapter chapter \<lparr>chapter_to_title = Some m, title_ranges = None\<rparr> = Inr None) \<and>
   folderForChapter chapter \<lparr>chapter_to_title = None, title_ranges = None\<rparr> = Inr None"
proof -
  have "folderForChapter ''540-a''
     \<lparr>chapter_to_title = Some [''540-a'' \<mapsto> ''title18''],
      title_ranges = Some [\<lparr>tr_start = ''500'', tr_end = ''600'', tr_folder = ''title55''\<rparr>]\<rparr>
     = Inr (Some ''title18'')"
    by code_simp
  moreover have "folderForChapter ''540-a''
     \<lparr>chapter_to_title = Some [''540-a'' \<mapsto> ''''],
      title_ranges = Some [\<lparr>tr_start = ''500'', tr_end = ''600'', tr_folder = ''title55''\<rparr>]\<rparr>
     = Inr (Some ''title55'')"
    by code_simp
  ultimately show ?thesis
    by (simp add: folderForChapter_def directLookup_def rangesOf_def truthy_def)
qed

theorem folderForChapter_truthiness_witness:
  "folderForChapter ''7''
     \<lparr>chapter_to_title = Some [''7'' \<mapsto> ''title9''],
      title_ranges = Some [\<lparr>tr_start = ''1'', tr_end = ''8'', tr_folder = ''title1''\<rparr>]\<rparr>
     = Inr (Some ''title9'') \<and>
   folderForChapter ''7''
     \<lparr>chapter_to_title = Some [''7'' \<mapsto> ''''],
      title_ranges = Some [\<lparr>tr_start = ''9'', tr_end = ''9-z'', tr_folder = ''title2''\<rparr>,
                           \<lparr>tr_start = ''1'', tr_end = ''8'', tr_folder = ''title1''\<rparr>]\<rparr>
     = Inr (Some ''title1'') \<and>
   folderForChapter ''7'' \<lparr>chapter_to_title = Some [''7'' \<mapsto> ''''], title_ranges = None\<rparr>
     = Inr None \<and>
   folderForChapter ''7'' \<lparr>chapter_to_title = Some [''8'' \<mapsto> ''title9''], title_ranges = None\<rparr>
     = Inr None"
proof -
  let ?r = "\<lparr>tr_start = ''1'', tr_end = ''8'', tr_folder = ''title1''\<rparr>"
  let ?rs = "[\<lparr>tr_start = ''9'', tr_end = ''9-z'', tr_folder = ''title2''\<rparr>, ?r]"
  have key: "[''7'' \<mapsto> ''''] ''7'' = Some []"
    and full: "[''7'' \<mapsto> ''title9''] ''7'' = Some ''title9'' \<and> ''title9'' \<noteq> []"
    and absent: "validChapter ''7'' \<and> [''8'' \<mapsto> ''title9''] ''7'' = None"
    by (simp, simp, code_simp)
  have scan: "scanRanges ''7'' ?rs = Inr (Some ''title1'')"
    by code_simp
  note truthy_case =
    folderForChapter_truthiness [of "[''7'' \<mapsto> ''title9'']" "''7''" "''title9''" "Some [?r]" "[]"]
  note empty_case = folderForChapter_truthiness [of "[''7'' \<mapsto> '''']" "''7''" "''title9''" None ?rs]
  note absent_case =
    folderForChapter_truthiness [of "[''8'' \<mapsto> ''title9'']" "''7''" "''title9''" None "[]"]
  have first: "folderForChapter ''7''
      \<lparr>chapter_to_title = Some [''7'' \<mapsto> ''title9''], title_ranges = Some [?r]\<rparr>
      = Inr (Some ''title9'')"
    by (rule mp [OF conjunct1 [OF truthy_case] full])
  have "folderForChapter ''7'' \<lparr>chapter_to_title = Some [''7'' \<mapsto> ''''], title_ranges = Some ?rs\<rparr>
      = scanRanges ''7'' ?rs"
    by (rule mp [OF conjunct1 [OF conjunct2 [OF empty_case]] key])
  then have second: "folderForChapter ''7''
      \<lparr>chapter_to_title = Some [''7'' \<mapsto> ''''], title_ranges = Some ?rs\<rparr>
      = Inr (Some ''title1'')"
    by (simp only: scan)
  have third: "folderForChapter ''7''
      \<lparr>chapter_to_title = Some [''7'' \<mapsto> ''''], title_ranges = None\<rparr> = Inr None"
    by (rule mp [OF conjunct1 [OF conjunct2 [OF conjunct2 [OF conjunct2 [OF conjunct2
      [OF conjunct2 [OF empty_case]]]]]] key])
  have fourth: "folderForChapter ''7''
      \<lparr>chapter_to_title = Some [''8'' \<mapsto> ''title9''], title_ranges = None\<rparr> = Inr None"
    by (rule mp [OF conjunct1 [OF conjunct2 [OF conjunct2 [OF conjunct2 [OF conjunct2
      [OF conjunct2 [OF conjunct2 [OF absent_case]]]]]]] absent])
  from first second third fourth show ?thesis
    by blast
qed

end
